theory Spec2Isabelle
  imports Main "HOL-Library.AList" "HOL-Library.Word"
begin

section \<open>Python values used by the code\<close>

text \<open>
  Strings are \<^typ>\<open>string\<close>, byte strings are lists of 8-bit words.  A Python
  \<open>dict\<close> is an association list with distinct keys in insertion order:
  \<open>d[k] = v\<close> is \<^const>\<open>AList.update\<close> (an existing key keeps its place and gets
  the new value, a new key goes to the end), lookup is \<^const>\<open>map_of\<close>.
  Exceptions are values of \<open>py_error\<close>; a function that can raise returns
  \<open>py_error + 'a\<close>.
\<close>

type_synonym byte = "8 word"

type_synonym ('k, 'v) dict = "('k \<times> 'v) list"

datatype py_error =
    IndexError
  | AssertionError
  | AttributeError
  | BadRequestKeyError
  | GAEPyPIError
  | Abort nat

text \<open>\<open>dict(pairs)\<close>: the pairs are inserted from left to right.\<close>

definition dict_of :: "('k \<times> 'v) list \<Rightarrow> ('k, 'v) dict" where
  "dict_of pairs = foldl (\<lambda>d (k, v). AList.update k v d) [] pairs"

text \<open>Truthiness of an optional string: \<open>None\<close> and \<open>''\<close> are false.\<close>

fun truthy :: "string option \<Rightarrow> bool" where
  "truthy None = False"
| "truthy (Some s) = (s \<noteq> [])"

text \<open>\<open>s.startswith('/')\<close> and \<open>s.endswith('/')\<close>.\<close>

definition startswith_sep :: "string \<Rightarrow> bool" where
  "startswith_sep s = (case s of [] \<Rightarrow> False | c # _ \<Rightarrow> c = CHR ''/'')"

definition endswith_sep :: "string \<Rightarrow> bool" where
  "endswith_sep s = (s \<noteq> [] \<and> last s = CHR ''/'')"

text \<open>
  \<open>s.split(sep)\<close> for a one-character separator: the result always has at least one
  element (\<open>''.split('/') == ['']\<close>), so the last case below is never reached.
\<close>

fun str_split :: "char \<Rightarrow> string \<Rightarrow> string list" where
  "str_split sep [] = [[]]"
| "str_split sep (c # cs) =
     (if c = sep then [] # str_split sep cs
      else (case str_split sep cs of
              s # ss \<Rightarrow> (c # s) # ss
            | [] \<Rightarrow> [[c]]))"

text \<open>\<open>sep.join(xs)\<close>.\<close>

fun str_join :: "string \<Rightarrow> string list \<Rightarrow> string" where
  "str_join sep [] = []"
| "str_join sep [x] = x"
| "str_join sep (x # y # ys) = x @ sep @ str_join sep (y # ys)"

text \<open>\<open>s.lstrip('/')\<close>.\<close>

definition lstrip_sep :: "string \<Rightarrow> string" where
  "lstrip_sep s = dropWhile (\<lambda>c. c = CHR ''/'') s"

text \<open>
  \<open>os.path.join(path, b)\<close> of \<open>posixpath\<close>, for one appended component: an absolute
  \<open>b\<close> replaces the path; otherwise a separator is put between the two unless the path
  is empty or already ends with one.
\<close>

definition os_path_join :: "string \<Rightarrow> string \<Rightarrow> string" where
  "os_path_join path b =
     (if startswith_sep b then b
      else if path = [] \<or> endswith_sep path then path @ b
      else path @ ''/'' @ b)"

text \<open>
  \<open>k.lower()\<close> on header names.  The strings of a WSGI environment and of HTTP
  headers hold code points 0 to 255 only, one per \<^typ>\<open>char\<close> here.  In that range
  \<open>str.lower\<close> maps the ASCII capitals and the Latin-1 capitals (\<open>0xC0\<close> to
  \<open>0xDE\<close> without the multiplication sign \<open>0xD7\<close>) to the small letter 32 places
  further, and keeps every other code point.
\<close>

definition ascii_uppercase :: string where
  "ascii_uppercase = ''ABCDEFGHIJKLMNOPQRSTUVWXYZ''"

definition ascii_lowercase :: string where
  "ascii_lowercase = ''abcdefghijklmnopqrstuvwxyz''"

definition latin1_uppercase :: string where
  "latin1_uppercase =
     [CHR 0xC0, CHR 0xC1, CHR 0xC2, CHR 0xC3, CHR 0xC4, CHR 0xC5, CHR 0xC6, CHR 0xC7,
      CHR 0xC8, CHR 0xC9, CHR 0xCA, CHR 0xCB, CHR 0xCC, CHR 0xCD, CHR 0xCE, CHR 0xCF,
      CHR 0xD0, CHR 0xD1, CHR 0xD2, CHR 0xD3, CHR 0xD4, CHR 0xD5, CHR 0xD6,
      CHR 0xD8, CHR 0xD9, CHR 0xDA, CHR 0xDB, CHR 0xDC, CHR 0xDD, CHR 0xDE]"

definition latin1_lowercase :: string where
  "latin1_lowercase =
     [CHR 0xE0, CHR 0xE1, CHR 0xE2, CHR 0xE3, CHR 0xE4, CHR 0xE5, CHR 0xE6, CHR 0xE7,
      CHR 0xE8, CHR 0xE9, CHR 0xEA, CHR 0xEB, CHR 0xEC, CHR 0xED, CHR 0xEE, CHR 0xEF,
      CHR 0xF0, CHR 0xF1, CHR 0xF2, CHR 0xF3, CHR 0xF4, CHR 0xF5, CHR 0xF6,
      CHR 0xF8, CHR 0xF9, CHR 0xFA, CHR 0xFB, CHR 0xFC, CHR 0xFD, CHR 0xFE]"

definition lower_char :: "char \<Rightarrow> char" where
  "lower_char c =
     (case map_of (zip (ascii_uppercase @ latin1_uppercase) (ascii_lowercase @ latin1_lowercase)) c of
        Some d \<Rightarrow> d
      | None \<Rightarrow> c)"

definition lower :: "string \<Rightarrow> string" where
  "lower s = map lower_char s"

text \<open>\<open>str(n)\<close> for a length: the decimal digits.\<close>

definition digit_char :: "nat \<Rightarrow> char" where
  "digit_char d = ''0123456789'' ! d"

function str_of_nat :: "nat \<Rightarrow> string" where
  "str_of_nat n =
     (if n < 10 then [digit_char n]
      else str_of_nat (n div 10) @ [digit_char (n mod 10)])"
  by pat_completeness auto
termination
  by (relation "measure (\<lambda>n. n)") auto

declare str_of_nat.simps [simp del]

section \<open>storage.py\<close>

text \<open>\<open>to_bucket_and_path(p)\<close>.\<close>

definition to_bucket_and_path :: "string \<Rightarrow> string \<times> string" where
  "to_bucket_and_path p =
     (let segments = str_split CHR ''/'' (lstrip_sep p);
          bucket_path = str_join ''/'' (tl segments)
      in (hd segments, bucket_path))"

text \<open>The class \<open>GCStorage\<close>: its two attributes.\<close>

record gcstorage =
  bucket :: string
  acl :: string

definition get_packages_path :: "gcstorage \<Rightarrow> string" where
  "get_packages_path self = ''/'' @ bucket self @ ''/packages''"

definition get_package_path :: "gcstorage \<Rightarrow> string \<Rightarrow> string option \<Rightarrow> string option \<Rightarrow> string" where
  "get_package_path self package version filename =
     (let path = os_path_join (get_packages_path self) package
      in if truthy version then
           (let path = os_path_join path (the version)
            in if truthy filename then os_path_join path (the filename) else path)
         else path)"

text \<open>
  The path encoding in the words of the specification:
  \<open>/{storeIdentity}/packages/{package}[/{version}[/{filename}]]\<close>, where the
  optional components that are present and not empty are appended in order, the
  filename only after a version.  It is compared with \<open>get_package_path\<close> below.
\<close>

definition spec_package_path :: "string \<Rightarrow> string \<Rightarrow> string option \<Rightarrow> string option \<Rightarrow> string" where
  "spec_package_path store_identity package version filename =
     ''/'' @ store_identity @ ''/packages/'' @ package @
       (if truthy version
        then ''/'' @ the version @ (if truthy filename then ''/'' @ the filename else [])
        else [])"

text \<open>
  \<open>split_path\<close>.  \<open>segments[1]\<close> raises \<open>IndexError\<close> when the path has no
  \<open>'/'\<close>; the \<open>assert\<close> raises \<open>AssertionError\<close>.  \<open>segments[-1]\<close> always
  exists.  \<open>segments[3:-1]\<close> is \<open>drop 3 (butlast segments)\<close>.
\<close>

definition components :: "string list" where
  "components = [''package'', ''version'', ''filename'']"

definition stripped_segments :: "string list \<Rightarrow> string list" where
  "stripped_segments segments =
     (if last segments = [] then drop 3 (butlast segments) else drop 3 segments)"

definition split_path :: "gcstorage \<Rightarrow> string \<Rightarrow> py_error + (string, string) dict" where
  "split_path self path =
     (let segments = str_split CHR ''/'' path
      in if length segments < 2 then Inl IndexError
         else if segments ! 1 \<noteq> bucket self then Inl AssertionError
         else Inr (dict_of (zip components (stripped_segments segments))))"

text \<open>
  The storage client's \<open>list_blobs(bucket, prefix=..., delimiter=...)\<close> is outside the
  repository: it is a parameter, giving the names of the blobs the iterator yields and
  the \<open>prefixes\<close> it has collected once iterated.
\<close>

type_synonym list_blobs = "string \<Rightarrow> string \<Rightarrow> string \<Rightarrow> string list \<times> string list"

definition legacy_path :: "gcstorage \<Rightarrow> string \<Rightarrow> string" where
  "legacy_path self p = ''/'' @ bucket self @ ''/'' @ p"

text \<open>
  The arguments of the \<open>list_blobs\<close> call that \<open>ls\<close> makes (bucket, prefix,
  delimiter).  \<open>path[-1]\<close> raises \<open>IndexError\<close> on the empty string.
\<close>

definition ls_query :: "gcstorage \<Rightarrow> string \<Rightarrow> py_error + (string \<times> string \<times> string)" where
  "ls_query self path =
     (if path = [] then Inl IndexError
      else let padded = (if last path = CHR ''/'' then path else path @ ''/'');
               bucket_path = snd (to_bucket_and_path padded)
           in Inr (bucket self, bucket_path, ''/''))"

definition ls :: "list_blobs \<Rightarrow> gcstorage \<Rightarrow> string \<Rightarrow> bool \<Rightarrow> py_error + string list" where
  "ls client self path dir_only =
     (case ls_query self path of
        Inl e \<Rightarrow> Inl e
      | Inr (b, bucket_path, delimiter) \<Rightarrow>
          (let blobs = client b bucket_path delimiter;
               ret = map (legacy_path self) (fst blobs)
           in Inr (if dir_only then map (legacy_path self) (snd blobs) else ret)))"

text \<open>
  \<open>path_exists\<close>.  \<open>ret\<close> is a dict literal, and a dict has no method \<open>add\<close>:
  the first iteration of the loop raises \<open>AttributeError\<close>.  The value returned is
  that of \<open>bucket_path in ret or len(blobs.prefixes)\<close>: \<open>True\<close> or the length.
\<close>

datatype py_value = PyBool bool | PyInt int

definition dict_add :: "(string, string) dict \<Rightarrow> string \<Rightarrow> py_error + (string, string) dict" where
  "dict_add ret name = Inl AttributeError"

fun add_names :: "(string, string) dict \<Rightarrow> string list \<Rightarrow> py_error + (string, string) dict" where
  "add_names ret [] = Inr ret"
| "add_names ret (name # names) =
     (case dict_add ret name of
        Inl e \<Rightarrow> Inl e
      | Inr ret' \<Rightarrow> add_names ret' names)"

definition path_exists :: "list_blobs \<Rightarrow> gcstorage \<Rightarrow> string \<Rightarrow> py_error + py_value" where
  "path_exists client self path =
     (let bucket_path = snd (to_bucket_and_path path);
          blobs = client (bucket self) bucket_path ''/''
      in case add_names [] (fst blobs) of
           Inl e \<Rightarrow> Inl e
         | Inr ret \<Rightarrow>
             Inr (if bucket_path \<in> fst ` set ret then PyBool True
                  else PyInt (int (length (snd blobs)))))"

section \<open>main.py\<close>

text \<open>
  The Flask request: \<open>request.headers.items()\<close>, \<open>request.values\<close> and
  \<open>request.files\<close> as lists of pairs; \<open>.get(k)\<close> is \<^const>\<open>map_of\<close>.  An
  uploaded file has a name and a stream.
\<close>

record file_storage =
  filename :: string
  stream :: "byte list"

record request =
  req_headers :: "(string \<times> string) list"
  req_values :: "(string \<times> string) list"
  req_files :: "(string \<times> file_storage) list"

text \<open>
  \<open>cleanup_headers(obj, skip_list)\<close>: the loop over \<open>obj.headers.items()\<close>, with
  the dict \<open>ret_headers\<close> as accumulator.
\<close>

fun cleanup_loop :: "(string \<times> string) list \<Rightarrow> string list \<Rightarrow> (string, string) dict \<Rightarrow> (string, string) dict" where
  "cleanup_loop [] skip_list ret_headers = ret_headers"
| "cleanup_loop ((k, v) # items) skip_list ret_headers =
     (if lower k \<notin> set skip_list
      then cleanup_loop items skip_list (AList.update k v ret_headers)
      else cleanup_loop items skip_list ret_headers)"

definition cleanup_headers :: "request \<Rightarrow> string list \<Rightarrow> (string, string) dict" where
  "cleanup_headers obj skip_list = cleanup_loop (req_headers obj) skip_list []"

text \<open>
  The upstream response of \<open>requests\<close>: status code, headers, and the bytes its raw
  stream still holds.  \<open>resp.raw.read(n)\<close> gives the next \<open>n\<close> bytes (fewer at the
  end of the stream, none after it) and leaves the rest.
\<close>

record upstream_response =
  status_code :: nat
  headers :: "(string \<times> string) list"
  raw :: "byte list"

definition raw_read :: "nat \<Rightarrow> byte list \<Rightarrow> byte list \<times> byte list" where
  "raw_read n s = (take n s, drop n s)"

text \<open>
  \<open>read_binary_data\<close>: the \<open>while True\<close> loop, with the stream and the buffer as
  state.
\<close>

function read_loop :: "byte list \<Rightarrow> byte list \<Rightarrow> byte list" where
  "read_loop s buffer =
     (if fst (raw_read (16 * 1024) s) = [] then buffer
      else read_loop (snd (raw_read (16 * 1024) s)) (buffer @ fst (raw_read (16 * 1024) s)))"
  by pat_completeness auto
termination
  by (relation "measure (\<lambda>(s, buffer). length s)") (auto simp: raw_read_def)

declare read_loop.simps [simp del]

definition read_binary_data :: "upstream_response \<Rightarrow> byte list" where
  "read_binary_data resp = read_loop (raw resp) []"

text \<open>
  The \<open>requests\<close> session.  \<open>session = requests.session()\<close> has the library's
  default headers; the user agent and the accepted encodings depend on the installed
  version and are parameters.  A \<open>CaseInsensitiveDict\<close> is its \<open>_store\<close>: an
  ordered dict from the lower-cased key to the pair of the key as last written and
  the value.  \<open>session.get(url, headers=..., stream=...)\<close> prepares the request with
  \<open>merge_setting(request.headers, self.headers, dict_class=CaseInsensitiveDict)\<close>:
  the session's headers, updated with the headers of the call (no value is \<open>None\<close>
  here).  What the library does with the prepared request (cookies of the jar,
  credentials of the environment, redirects, the transport) is the parameter
  \<open>session_send\<close>, which receives the URL, the merged headers and the stream flag.
\<close>

type_synonym ci_dict = "(string \<times> (string \<times> string)) list"

definition ci_setitem :: "string \<Rightarrow> string \<Rightarrow> ci_dict \<Rightarrow> ci_dict" where
  "ci_setitem key val store = AList.update (lower key) (key, val) store"

definition ci_update :: "(string \<times> string) list \<Rightarrow> ci_dict \<Rightarrow> ci_dict" where
  "ci_update items store = foldl (\<lambda>d (k, v). ci_setitem k v d) store items"

definition CaseInsensitiveDict :: "(string \<times> string) list \<Rightarrow> ci_dict" where
  "CaseInsensitiveDict data = ci_update data []"

definition ci_items :: "ci_dict \<Rightarrow> (string \<times> string) list" where
  "ci_items store = map snd store"

definition merge_setting :: "(string \<times> string) list \<Rightarrow> (string \<times> string) list \<Rightarrow> ci_dict" where
  "merge_setting request_setting session_setting =
     (let merged_setting = CaseInsensitiveDict session_setting
      in ci_update request_setting merged_setting)"

definition default_headers :: "string \<Rightarrow> string \<Rightarrow> (string \<times> string) list" where
  "default_headers user_agent accept_encoding =
     ci_items (CaseInsensitiveDict
       [(''User-Agent'', user_agent),
        (''Accept-Encoding'', accept_encoding),
        (''Accept'', ''*/*''),
        (''Connection'', ''keep-alive'')])"

record session =
  session_headers :: "(string \<times> string) list"
  session_send :: "string \<Rightarrow> (string \<times> string) list \<Rightarrow> bool \<Rightarrow> upstream_response"

definition requests_session ::
  "string \<Rightarrow> string \<Rightarrow> (string \<Rightarrow> (string \<times> string) list \<Rightarrow> bool \<Rightarrow> upstream_response) \<Rightarrow> session" where
  "requests_session user_agent accept_encoding send =
     \<lparr>session_headers = default_headers user_agent accept_encoding, session_send = send\<rparr>"

definition session_get :: "session \<Rightarrow> string \<Rightarrow> (string, string) dict \<Rightarrow> bool \<Rightarrow> upstream_response" where
  "session_get self url hdrs strm =
     session_send self url (ci_items (merge_setting hdrs (session_headers self))) strm"

text \<open>
  The Flask \<open>Response\<close>.  Its headers are a Werkzeug \<open>Headers\<close> list, compared
  on lower-cased names.  \<open>headers[key] = val\<close> replaces the first entry of that name
  and removes the later ones, or appends.  The constructor copies the given headers,
  sets \<open>Content-Type\<close> to the default of Flask (\<open>text/html\<close>, with the charset)
  when \<open>"content-type" not in self.headers\<close>, and \<open>set_data\<close> then stores the body
  and sets \<open>Content-Length\<close> to \<open>str(len(value))\<close>.  Header values are taken to hold
  no line break, which the constructor would refuse.
\<close>

record response =
  response_body :: "byte list"
  response_status :: nat
  response_headers :: "(string \<times> string) list"

definition has_header :: "string \<Rightarrow> (string \<times> string) list \<Rightarrow> bool" where
  "has_header key hs = (lower key \<in> set (map (\<lambda>(k, v). lower k) hs))"

fun headers_set :: "string \<Rightarrow> string \<Rightarrow> (string \<times> string) list \<Rightarrow> (string \<times> string) list" where
  "headers_set key val [] = [(key, val)]"
| "headers_set key val ((k, v) # hs) =
     (if lower k = lower key
      then (key, val) # filter (\<lambda>(k', v'). lower k' \<noteq> lower key) hs
      else (k, v) # headers_set key val hs)"

definition Response :: "byte list \<Rightarrow> nat \<Rightarrow> (string \<times> string) list \<Rightarrow> response" where
  "Response data status hdrs =
     (let hs = hdrs;
          hs = (if \<not> has_header ''content-type'' hs
                then headers_set ''Content-Type'' ''text/html; charset=utf-8'' hs
                else hs);
          hs = headers_set ''Content-Length'' (str_of_nat (length data)) hs
      in \<lparr>response_body = data, response_status = status, response_headers = hs\<rparr>)"

text \<open>\<open>proxy_to_pypi_org\<close>, with the session as a parameter.\<close>

definition proxy_skip_list :: "string list" where
  "proxy_skip_list =
     [''authorization'', ''x-appengine-auth-domain'', ''x-appengine-user-is-admin'', ''host'']"

definition proxy_to_pypi_org :: "session \<Rightarrow> request \<Rightarrow> string \<Rightarrow> response" where
  "proxy_to_pypi_org session req package =
     (let proxy_headers = cleanup_headers req proxy_skip_list;
          resp = session_get session (''https://pypi.org/simple/'' @ package) proxy_headers True
      in Response (read_binary_data resp) (status_code resp) (headers resp))"

text \<open>
  Two transports for the worked examples below: one answers with the number of headers
  it was sent as status code, the other answers every request with a given response.
\<close>

definition counting_send :: "string \<Rightarrow> (string \<times> string) list \<Rightarrow> bool \<Rightarrow> upstream_response" where
  "counting_send url hdrs strm = \<lparr>status_code = length hdrs, headers = [], raw = []\<rparr>"

definition answering :: "upstream_response \<Rightarrow> string \<Rightarrow> (string \<times> string) list \<Rightarrow> bool \<Rightarrow> upstream_response" where
  "answering r url hdrs strm = r"

text \<open>
  The package views.  \<open>PackageIndex\<close> is defined in \<open>gaepypi/package.py\<close>, which
  is not among the sources: what its methods \<open>exists\<close>, \<open>empty\<close> and
  \<open>to_html\<close> return for the index of a package is a parameter.  A view returns a
  rendered page or a \<open>Response\<close> object.
\<close>

record package_index =
  index_exists :: bool
  index_empty :: bool
  index_to_html :: "bool \<Rightarrow> string"

datatype view_result = Page string | Proxied response

definition packages_get_package ::
  "(gcstorage \<Rightarrow> string \<Rightarrow> package_index) \<Rightarrow> session \<Rightarrow> gcstorage \<Rightarrow> request \<Rightarrow> string \<Rightarrow> view_result" where
  "packages_get_package PackageIndex session storage req package =
     (let index = PackageIndex storage package
      in if index_exists index then Page (index_to_html index False)
         else Proxied (proxy_to_pypi_org session req package))"

definition pypi_package_get ::
  "(gcstorage \<Rightarrow> string \<Rightarrow> package_index) \<Rightarrow> session \<Rightarrow> gcstorage \<Rightarrow> request \<Rightarrow> string \<Rightarrow> view_result" where
  "pypi_package_get PackageIndex session storage req package =
     (let st = storage;
          index = PackageIndex st package
      in if \<not> index_empty index \<and> index_exists index then Page (index_to_html index True)
         else Proxied (proxy_to_pypi_org session req package))"

text \<open>
  \<open>root_post\<close>.  \<open>Package(...).put_file\<close> is defined in \<open>gaepypi/package.py\<close>,
  which is not among the sources: the write is a parameter that takes the state of the
  store and returns the new one or raises.  \<open>request.files['content']\<close> raises on a
  missing key; a \<open>GAEPyPIError\<close> becomes \<open>abort(403)\<close>.  The view returns the
  state of the store and its body.
\<close>

type_synonym 'st put_file = "'st \<Rightarrow> string \<Rightarrow> string \<Rightarrow> string \<Rightarrow> byte list \<Rightarrow> py_error + 'st"

definition root_post :: "'st put_file \<Rightarrow> 'st \<Rightarrow> request \<Rightarrow> py_error + ('st \<times> string)" where
  "root_post put_file store req =
     (let name = map_of (req_values req) ''name'';
          version = map_of (req_values req) ''version'';
          action = map_of (req_values req) '':action''
      in if truthy name \<and> truthy version \<and> length (req_files req) \<noteq> 0
            \<and> action = Some ''file_upload''
         then (case map_of (req_files req) ''content'' of
                 None \<Rightarrow> Inl BadRequestKeyError
               | Some upload \<Rightarrow>
                   (case put_file store (the name) (the version) (filename upload) (stream upload) of
                      Inl GAEPyPIError \<Rightarrow> Inl (Abort 403)
                    | Inl e \<Rightarrow> Inl e
                    | Inr store' \<Rightarrow> Inr (store', [])))
         else Inr (store, []))"

section \<open>Auxiliary facts\<close>

subsection \<open>Splitting and joining\<close>

lemma str_split_not_Nil: "str_split sep s \<noteq> []"
  by (induction s) (auto split: list.splits)

lemma str_split_no_sep: "sep \<notin> set s \<Longrightarrow> str_split sep s = [s]"
  by (induction s) auto

lemma str_split_append_sep:
  "sep \<notin> set a \<Longrightarrow> str_split sep (a @ sep # rest) = a # str_split sep rest"
  by (induction a) auto

lemma str_split_snoc_sep: "str_split sep (s @ [sep]) = str_split sep s @ [[]]"
proof (induction s)
  case Nil
  show ?case by simp
next
  case (Cons c cs)
  then show ?case
    using str_split_not_Nil [of sep cs] by (cases "str_split sep cs") auto
qed

lemma str_split_snoc_other:
  "c \<noteq> sep \<Longrightarrow> str_split sep (s @ [c]) = butlast (str_split sep s) @ [last (str_split sep s) @ [c]]"
proof (induction s)
  case Nil
  then show ?case by simp
next
  case (Cons d ds)
  then show ?case
    using str_split_not_Nil [of sep ds] by (cases "str_split sep ds") auto
qed

lemma last_str_split_Nil: "(last (str_split sep s) = []) = (s = [] \<or> last s = sep)"
proof (induction s rule: rev_induct)
  case Nil
  show ?case by simp
next
  case (snoc c cs)
  show ?case
  proof (cases "c = sep")
    case True
    then show ?thesis by (simp add: str_split_snoc_sep)
  next
    case False
    then show ?thesis by (simp add: str_split_snoc_other)
  qed
qed

lemma length_str_split_ge2: "sep \<in> set s \<Longrightarrow> 2 \<le> length (str_split sep s)"
proof (induction s)
  case Nil
  then show ?case by simp
next
  case (Cons c cs)
  then show ?case
    using str_split_not_Nil [of sep cs]
    by (cases "str_split sep cs") (auto split: if_splits)
qed

lemma str_join_snoc_Nil: "ys \<noteq> [] \<Longrightarrow> str_join sep (ys @ [[]]) = str_join sep ys @ sep"
proof (induction sep ys rule: str_join.induct)
  case (1 sep)
  then show ?case by simp
next
  case (2 sep x)
  show ?case by simp
next
  case (3 sep x y ys)
  then show ?case by simp
qed

lemma lstrip_sep_append:
  "lstrip_sep s \<noteq> [] \<Longrightarrow> lstrip_sep (s @ t) = lstrip_sep s @ t"
proof -
  assume "lstrip_sep s \<noteq> []"
  then obtain x where "x \<in> set s" "\<not> x = CHR ''/''"
    by (auto simp: lstrip_sep_def dropWhile_eq_Nil_conv)
  then show ?thesis
    unfolding lstrip_sep_def by (rule dropWhile_append1)
qed

lemma last_lstrip_sep: "lstrip_sep s \<noteq> [] \<Longrightarrow> last (lstrip_sep s) = last s"
proof -
  assume "lstrip_sep s \<noteq> []"
  then have "last (takeWhile (\<lambda>c. c = CHR ''/'') s @ dropWhile (\<lambda>c. c = CHR ''/'') s)
               = last (dropWhile (\<lambda>c. c = CHR ''/'') s)"
    unfolding lstrip_sep_def by (rule last_appendR)
  then show ?thesis
    by (simp add: lstrip_sep_def)
qed

subsection \<open>Dictionaries\<close>

lemma update_new_key: "k \<notin> fst ` set al \<Longrightarrow> AList.update k v al = al @ [(k, v)]"
  by (induction al) auto

lemma foldl_update_distinct:
  "distinct (map fst (acc @ ps)) \<Longrightarrow> foldl (\<lambda>d (k, v). AList.update k v d) acc ps = acc @ ps"
proof (induction ps arbitrary: acc)
  case Nil
  show ?case by simp
next
  case (Cons kv ps)
  obtain k v where kv: "kv = (k, v)" by (cases kv)
  from Cons.prems have new: "k \<notin> fst ` set acc" by (auto simp: kv)
  from Cons.prems have "distinct (map fst ((acc @ [(k, v)]) @ ps))" by (simp add: kv)
  then have "foldl (\<lambda>d (k, v). AList.update k v d) (acc @ [(k, v)]) ps = (acc @ [(k, v)]) @ ps"
    by (rule Cons.IH)
  then show ?case by (simp add: kv update_new_key [OF new])
qed

lemma dict_of_distinct: "distinct (map fst ps) \<Longrightarrow> dict_of ps = ps"
  using foldl_update_distinct [of "[]" ps] by (simp add: dict_of_def)

lemma foldl_update_map_of:
  "map_of (foldl (\<lambda>d (k, v). AList.update k v d) acc ps) k =
     (case map_of (rev ps) k of Some v \<Rightarrow> Some v | None \<Rightarrow> map_of acc k)"
proof (induction ps arbitrary: acc)
  case Nil
  show ?case by simp
next
  case (Cons kv ps)
  obtain k' v' where kv: "kv = (k', v')" by (cases kv)
  show ?case
    by (auto simp: kv Cons.IH update_conv' map_add_def split: option.splits)
qed

lemma dict_of_map_of: "map_of (dict_of ps) k = map_of (rev ps) k"
  by (simp add: dict_of_def foldl_update_map_of split: option.splits)

lemma zip_components_take: "zip components xs = zip components (take 3 xs)"
proof -
  have "zip components xs = take 3 (zip components xs)"
    by (simp add: components_def)
  also have "\<dots> = zip (take 3 components) (take 3 xs)"
    by (rule take_zip)
  also have "\<dots> = zip components (take 3 xs)"
    by (simp add: components_def)
  finally show ?thesis .
qed

lemma distinct_components: "distinct components"
  by (simp add: components_def)

lemma dict_of_zip_components: "dict_of (zip components xs) = zip components (take 3 xs)"
proof -
  have "distinct (map fst (zip components xs))"
    by (simp add: map_fst_zip_take distinct_components)
  then have "dict_of (zip components xs) = zip components xs"
    by (rule dict_of_distinct)
  then show ?thesis
    using zip_components_take [of xs] by simp
qed

lemma dict_of_triple:
  "dict_of (zip components [p, v, f]) = [(''package'', p), (''version'', v), (''filename'', f)]"
  by (simp add: dict_of_def components_def)

subsection \<open>Paths\<close>

lemma os_path_join_relative:
  "\<not> startswith_sep b \<Longrightarrow> path \<noteq> [] \<Longrightarrow> \<not> endswith_sep path \<Longrightarrow>
     os_path_join path b = path @ ''/'' @ b"
  by (simp add: os_path_join_def)

lemma packages_path_no_trailing_sep:
  "get_packages_path self \<noteq> [] \<and> \<not> endswith_sep (get_packages_path self)"
  by (simp add: get_packages_path_def endswith_sep_def)

lemma segment_not_sep:
  "s \<noteq> [] \<Longrightarrow> CHR ''/'' \<notin> set s \<Longrightarrow> \<not> startswith_sep s \<and> \<not> endswith_sep s"
  using last_in_set [of s] by (cases s) (auto simp: startswith_sep_def endswith_sep_def)

lemma get_package_path_full:
  assumes "p \<noteq> []" "CHR ''/'' \<notin> set p" "v \<noteq> []" "CHR ''/'' \<notin> set v" "f \<noteq> []" "CHR ''/'' \<notin> set f"
  shows "get_package_path self p (Some v) (Some f) =
           ''/'' @ bucket self @ ''/packages/'' @ p @ ''/'' @ v @ ''/'' @ f"
proof -
  have p: "\<not> startswith_sep p" "\<not> endswith_sep p" and v: "\<not> startswith_sep v" "\<not> endswith_sep v"
    and f: "\<not> startswith_sep f"
    using assms segment_not_sep by blast+
  have root: "\<not> endswith_sep (get_packages_path self)"
    by (simp add: get_packages_path_def endswith_sep_def)
  have 1: "os_path_join (get_packages_path self) p = get_packages_path self @ ''/'' @ p"
    using p root by (simp add: os_path_join_def get_packages_path_def)
  have 2: "os_path_join (get_packages_path self @ ''/'' @ p) v = get_packages_path self @ ''/'' @ p @ ''/'' @ v"
    using v p assms(1) by (simp add: os_path_join_def endswith_sep_def)
  have 3: "os_path_join (get_packages_path self @ ''/'' @ p @ ''/'' @ v) f = get_packages_path self @ ''/'' @ p @ ''/'' @ v @ ''/'' @ f"
    using f v assms(3) by (simp add: os_path_join_def endswith_sep_def)
  have "get_package_path self p (Some v) (Some f) =
          os_path_join (os_path_join (os_path_join (get_packages_path self) p) v) f"
    using assms(3,5) by (simp add: get_package_path_def Let_def)
  also have "\<dots> = get_packages_path self @ ''/'' @ p @ ''/'' @ v @ ''/'' @ f"
    by (simp only: 1 2 3)
  also have "\<dots> = ''/'' @ bucket self @ ''/packages/'' @ p @ ''/'' @ v @ ''/'' @ f"
    by (simp add: get_packages_path_def)
  finally show ?thesis .
qed

lemma str_split_encoded:
  assumes "CHR ''/'' \<notin> set b" "CHR ''/'' \<notin> set p" "CHR ''/'' \<notin> set v" "CHR ''/'' \<notin> set f"
  shows "str_split CHR ''/'' (''/'' @ b @ ''/packages/'' @ p @ ''/'' @ v @ ''/'' @ f) = [[], b, ''packages'', p, v, f]"
proof -
  have 1: "str_split CHR ''/'' (v @ CHR ''/'' # f) = [v, f]"
    using assms(3,4) by (simp add: str_split_append_sep str_split_no_sep)
  have 2: "str_split CHR ''/'' (p @ CHR ''/'' # v @ CHR ''/'' # f) = [p, v, f]"
    using assms(2) 1 by (simp add: str_split_append_sep)
  have 3: "str_split CHR ''/'' (''packages'' @ CHR ''/'' # p @ CHR ''/'' # v @ CHR ''/'' # f) = [''packages'', p, v, f]"
    by (subst str_split_append_sep) (simp_all add: 2)
  have 4: "str_split CHR ''/'' (b @ CHR ''/'' # ''packages'' @ CHR ''/'' # p @ CHR ''/'' # v @ CHR ''/'' # f)
             = [b, ''packages'', p, v, f]"
    using assms(1) by (subst str_split_append_sep) (simp_all only: 3 not_False_eq_True)
  have 5: "str_split CHR ''/'' (CHR ''/'' # b @ CHR ''/'' # ''packages'' @ CHR ''/'' # p @ CHR ''/'' # v @ CHR ''/'' # f)
             = [[], b, ''packages'', p, v, f]"
    by (simp only: str_split.simps 4 refl if_True)
  have "''/'' @ b @ ''/packages/'' @ p @ ''/'' @ v @ ''/'' @ f
          = CHR ''/'' # b @ CHR ''/'' # ''packages'' @ CHR ''/'' # p @ CHR ''/'' # v @ CHR ''/'' # f"
    by simp
  then show ?thesis
    by (simp only: 5)
qed

lemma split_path_trailing_sep:
  assumes "CHR ''/'' \<in> set path" "last path \<noteq> CHR ''/''"
  shows "split_path self (path @ ''/'') = split_path self path"
proof -
  let ?segs = "str_split CHR ''/'' path"
  from assms(1) have ne: "path \<noteq> []" by auto
  have len: "2 \<le> length ?segs"
    using assms(1) by (rule length_str_split_ge2)
  have snoc: "str_split CHR ''/'' (path @ ''/'') = ?segs @ [[]]"
    using str_split_snoc_sep [of "CHR ''/''" path] by simp
  have lastne: "last ?segs \<noteq> []"
    using ne assms(2) by (simp add: last_str_split_Nil)
  have 1: "(?segs @ [[]]) ! 1 = ?segs ! 1"
    using len by (simp add: nth_append)
  have 2: "stripped_segments (?segs @ [[]]) = stripped_segments ?segs"
    using lastne by (simp add: stripped_segments_def)
  show ?thesis
    using len by (simp add: split_path_def snoc 2 Let_def nth_append str_split_not_Nil)
qed

lemma bucket_path_padded:
  assumes "snd (to_bucket_and_path path) \<noteq> []"
  shows "snd (to_bucket_and_path (if last path = CHR ''/'' then path else path @ ''/'')) =
           (if last path = CHR ''/'' then snd (to_bucket_and_path path)
            else snd (to_bucket_and_path path) @ ''/'')
         \<and> endswith_sep (if last path = CHR ''/'' then snd (to_bucket_and_path path)
                         else snd (to_bucket_and_path path) @ ''/'')"
proof -
  let ?q = "lstrip_sep path"
  let ?segs = "str_split CHR ''/'' ?q"
  have bp: "snd (to_bucket_and_path path) = str_join ''/'' (tl ?segs)"
    by (simp add: to_bucket_and_path_def Let_def)
  with assms have tl_ne: "tl ?segs \<noteq> []"
    by auto
  then have q_ne: "?q \<noteq> []"
    by auto
  show ?thesis
  proof (cases "last path = CHR ''/''")
    case True
    then have "last ?q = CHR ''/''"
      using q_ne by (simp add: last_lstrip_sep)
    then have q: "?q = butlast ?q @ ''/''"
      using q_ne append_butlast_last_id [of ?q] by simp
    let ?init = "str_split CHR ''/'' (butlast ?q)"
    have "?segs = ?init @ [[]]"
      using str_split_snoc_sep [of "CHR ''/''" "butlast ?q"] q by simp
    then have tl: "tl ?segs = tl ?init @ [[]]"
      using str_split_not_Nil [of "CHR ''/''" "butlast ?q"] by simp
    have "tl ?init \<noteq> []"
    proof
      assume "tl ?init = []"
      with tl have "str_join ''/'' (tl ?segs) = []" by simp
      with bp assms show False by simp
    qed
    then have "str_join ''/'' (tl ?init @ [[]]) = str_join ''/'' (tl ?init) @ ''/''"
      by (rule str_join_snoc_Nil)
    then have "str_join ''/'' (tl ?segs) = str_join ''/'' (tl ?init) @ ''/''"
      by (simp only: tl)
    with bp have "endswith_sep (snd (to_bucket_and_path path))"
      by (simp add: endswith_sep_def)
    with True show ?thesis by simp
  next
    case False
    have "lstrip_sep (path @ ''/'') = ?q @ ''/''"
      using q_ne by (rule lstrip_sep_append)
    then have "str_split CHR ''/'' (lstrip_sep (path @ ''/'')) = ?segs @ [[]]"
      using str_split_snoc_sep [of "CHR ''/''" ?q] by simp
    moreover have "tl (?segs @ [[]]) = tl ?segs @ [[]]"
      using str_split_not_Nil [of "CHR ''/''" ?q] by simp
    ultimately have "snd (to_bucket_and_path (path @ ''/'')) = str_join ''/'' (tl ?segs @ [[]])"
      by (simp add: to_bucket_and_path_def Let_def)
    also have "\<dots> = str_join ''/'' (tl ?segs) @ ''/''"
      using tl_ne by (rule str_join_snoc_Nil)
    finally have "snd (to_bucket_and_path (path @ ''/'')) = snd (to_bucket_and_path path) @ ''/''"
      by (simp only: bp)
    with False show ?thesis by (simp add: endswith_sep_def)
  qed
qed

subsection \<open>Requests and responses\<close>

lemma cleanup_loop_map_of:
  "map_of (cleanup_loop items skip_list acc) k =
     (if lower k \<in> set skip_list then map_of acc k
      else (case map_of (rev items) k of Some v \<Rightarrow> Some v | None \<Rightarrow> map_of acc k))"
proof (induction items arbitrary: acc)
  case Nil
  show ?case by simp
next
  case (Cons kv items)
  obtain k' v' where kv: "kv = (k', v')" by (cases kv)
  show ?case
    by (auto simp: kv Cons.IH update_conv' map_add_def split: option.splits)
qed

lemma cleanup_loop_distinct:
  "distinct (map fst (acc @ items)) \<Longrightarrow>
     cleanup_loop items skip_list acc = acc @ filter (\<lambda>(k, v). lower k \<notin> set skip_list) items"
proof (induction items arbitrary: acc)
  case Nil
  show ?case by simp
next
  case (Cons kv items)
  obtain k v where kv: "kv = (k, v)" by (cases kv)
  from Cons.prems have new: "k \<notin> fst ` set acc" by (auto simp: kv)
  show ?case
  proof (cases "lower k \<in> set skip_list")
    case True
    from Cons.prems have "distinct (map fst (acc @ items))" by (simp add: kv)
    from Cons.IH [OF this] True show ?thesis by (simp add: kv)
  next
    case False
    from Cons.prems have "distinct (map fst ((acc @ [(k, v)]) @ items))" by (simp add: kv)
    from Cons.IH [OF this] False show ?thesis by (simp add: kv update_new_key [OF new])
  qed
qed

lemma add_names_raises: "names \<noteq> [] \<Longrightarrow> add_names ret names = Inl AttributeError"
  by (cases names) (simp_all add: dict_add_def)

lemma read_loop_eq: "read_loop s buffer = buffer @ s"
proof (induction s buffer rule: read_loop.induct)
  case (1 s buffer)
  show ?case
  proof (cases "fst (raw_read (16 * 1024) s) = []")
    case True
    then have "s = []" by (simp add: raw_read_def)
    with True show ?thesis by (subst read_loop.simps) simp
  next
    case False
    have "read_loop s buffer =
            read_loop (snd (raw_read (16 * 1024) s)) (buffer @ fst (raw_read (16 * 1024) s))"
      using False by (subst read_loop.simps) simp
    also have "\<dots> = (buffer @ fst (raw_read (16 * 1024) s)) @ snd (raw_read (16 * 1024) s)"
      using False by (rule "1.IH")
    also have "\<dots> = buffer @ s"
      by (simp add: raw_read_def)
    finally show ?thesis .
  qed
qed

subsection \<open>Sessions and responses of the libraries\<close>

lemma lower_header_names:
  "lower ''User-Agent'' = ''user-agent''"
  "lower ''Accept-Encoding'' = ''accept-encoding''"
  "lower ''Accept'' = ''accept''"
  "lower ''Connection'' = ''connection''"
  "lower ''Content-Type'' = ''content-type''"
  "lower ''Content-Length'' = ''content-length''"
  "lower ''content-type'' = ''content-type''"
  by (simp_all add: lower_def lower_char_def ascii_uppercase_def ascii_lowercase_def
      latin1_uppercase_def latin1_lowercase_def)

lemma lower_inbound_names:
  "lower ''Authorization'' = ''authorization''"
  "lower ''Host'' = ''host''"
  by (simp_all add: lower_def lower_char_def ascii_uppercase_def ascii_lowercase_def
      latin1_uppercase_def latin1_lowercase_def)

lemma ci_update_foldl:
  "ci_update items store =
     foldl (\<lambda>d (k, v). AList.update k v d) store (map (\<lambda>(k, v). (lower k, (k, v))) items)"
  unfolding ci_update_def
  by (induction items arbitrary: store) (auto simp: ci_setitem_def)

lemma set_update_subset: "set (AList.update k v al) \<subseteq> insert (k, v) (set al)"
  by (induction al) auto

lemma ci_setitem_keys:
  "fst ` set (ci_setitem k v store) = insert (lower k) (fst ` set store)"
  by (simp add: ci_setitem_def dom_update)

lemma ci_update_keys:
  "fst ` set (ci_update items store) = (\<lambda>(k, v). lower k) ` set items \<union> fst ` set store"
  unfolding ci_update_def
proof (induction items arbitrary: store)
  case Nil
  show ?case by simp
next
  case (Cons kv items)
  obtain k v where kv: "kv = (k, v)" by (cases kv)
  have "fst ` set (foldl (\<lambda>d (k, v). ci_setitem k v d) (ci_setitem k v store) items) =
          (\<lambda>(k, v). lower k) ` set items \<union> fst ` set (ci_setitem k v store)"
    by (rule Cons.IH)
  then show ?case
    by (simp add: kv ci_setitem_keys)
qed

lemma ci_update_wf:
  "\<forall>e \<in> set store. fst e = lower (fst (snd e)) \<Longrightarrow>
     \<forall>e \<in> set (ci_update items store). fst e = lower (fst (snd e))"
  unfolding ci_update_def
proof (induction items arbitrary: store)
  case Nil
  then show ?case by simp
next
  case (Cons kv items)
  obtain k v where kv: "kv = (k, v)" by (cases kv)
  have "\<forall>e \<in> set (ci_setitem k v store). fst e = lower (fst (snd e))"
    using Cons.prems set_update_subset [of "lower k" "(k, v)" store]
    by (auto simp: ci_setitem_def)
  from Cons.IH [OF this] show ?case by (simp add: kv)
qed

lemma ci_items_names:
  "\<forall>e \<in> set store. fst e = lower (fst (snd e)) \<Longrightarrow>
     (\<lambda>(k, v). lower k) ` set (ci_items store) = fst ` set store"
  by (force simp: ci_items_def image_iff)

lemma merge_setting_wf:
  "\<forall>e \<in> set (merge_setting hs ss). fst e = lower (fst (snd e))"
proof -
  have "\<forall>e \<in> set (ci_update ss []). fst e = lower (fst (snd e))"
    by (rule ci_update_wf) simp
  then have "\<forall>e \<in> set (ci_update hs (ci_update ss [])). fst e = lower (fst (snd e))"
    by (rule ci_update_wf)
  then show ?thesis
    by (simp add: merge_setting_def CaseInsensitiveDict_def Let_def)
qed

lemma merge_setting_names:
  "(\<lambda>(k, v). lower k) ` set (ci_items (merge_setting hs ss)) =
     (\<lambda>(k, v). lower k) ` set hs \<union> (\<lambda>(k, v). lower k) ` set ss"
  by (simp add: ci_items_names [OF merge_setting_wf])
     (simp add: merge_setting_def CaseInsensitiveDict_def Let_def ci_update_keys)

lemma merge_setting_keeps:
  assumes "distinct (map (\<lambda>(k, v). lower k) hs)"
  shows "set hs \<subseteq> set (ci_items (merge_setting hs ss))"
proof
  fix kv assume mem: "kv \<in> set hs"
  obtain k v where kv: "kv = (k, v)" by (cases kv)
  let ?f = "\<lambda>(k, v). (lower k, (k, v))"
  let ?ps = "map ?f hs"
  have comp: "fst \<circ> ?f = (\<lambda>(k, v). lower k)"
    by (auto simp: fun_eq_iff)
  have "map fst (rev ?ps) = rev (map (\<lambda>(k, v). lower k) hs)"
    by (simp add: rev_map comp)
  then have "distinct (map fst (rev ?ps))"
    using assms by (simp only: distinct_rev)
  moreover have "(lower k, (k, v)) \<in> set (rev ?ps)"
    using mem kv by force
  ultimately have "map_of (rev ?ps) (lower k) = Some (k, v)"
    by (rule map_of_is_SomeI)
  then have "map_of (merge_setting hs ss) (lower k) = Some (k, v)"
    by (simp add: merge_setting_def Let_def ci_update_foldl [of hs] foldl_update_map_of)
  then have "(lower k, (k, v)) \<in> set (merge_setting hs ss)"
    by (rule map_of_SomeD)
  then show "kv \<in> set (ci_items (merge_setting hs ss))"
    by (force simp: ci_items_def kv)
qed

lemma cleanup_headers_map_of:
  "map_of (cleanup_headers req sl) k =
     (if lower k \<in> set sl then None else map_of (dict_of (req_headers req)) k)"
  by (simp add: cleanup_headers_def cleanup_loop_map_of dict_of_map_of split: option.splits)

lemma cleanup_headers_names:
  "(\<lambda>(k, v). lower k) ` set (cleanup_headers req sl) \<inter> set sl = {}"
proof -
  have "lower k \<notin> set sl" if "(k, v) \<in> set (cleanup_headers req sl)" for k v
  proof
    assume "lower k \<in> set sl"
    then have "map_of (cleanup_headers req sl) k = None"
      by (simp add: cleanup_headers_map_of)
    then have "k \<notin> fst ` set (cleanup_headers req sl)"
      by (simp add: map_of_eq_None_iff)
    with that show False by force
  qed
  then show ?thesis by auto
qed

lemma default_headers_eq:
  "default_headers user_agent accept_encoding =
     [(''User-Agent'', user_agent), (''Accept-Encoding'', accept_encoding),
      (''Accept'', ''*/*''), (''Connection'', ''keep-alive'')]"
  by (simp add: default_headers_def CaseInsensitiveDict_def ci_update_def ci_setitem_def
      ci_items_def lower_header_names)

lemma default_headers_names:
  "(\<lambda>(k, v). lower k) ` set (default_headers user_agent accept_encoding) =
     {''user-agent'', ''accept-encoding'', ''accept'', ''connection''}"
  by (simp add: default_headers_eq lower_header_names)

lemma headers_set_absent:
  "\<not> has_header key hs \<Longrightarrow> headers_set key val hs = hs @ [(key, val)]"
  by (induction hs) (auto simp: has_header_def)

lemma headers_set_others:
  "lower key \<in> N \<Longrightarrow>
     filter (\<lambda>(k, v). lower k \<notin> N) (headers_set key val hs) = filter (\<lambda>(k, v). lower k \<notin> N) hs"
proof (induction hs)
  case Nil
  then show ?case by simp
next
  case (Cons kv hs)
  obtain k v where kv: "kv = (k, v)" by (cases kv)
  show ?case
  proof (cases "lower k = lower key")
    case True
    have "filter (\<lambda>(k, v). lower k \<notin> N) (filter (\<lambda>(k', v'). lower k' \<noteq> lower key) hs)
            = filter (\<lambda>(k, v). lower k \<notin> N) hs"
      using Cons.prems by (auto intro!: filter_cong)
    with True Cons.prems show ?thesis by (simp add: kv)
  next
    case False
    with Cons show ?thesis by (simp add: kv)
  qed
qed

lemma response_headers_Response:
  "response_headers (Response data st hs) =
     headers_set ''Content-Length'' (str_of_nat (length data))
       (if has_header ''content-type'' hs then hs
        else hs @ [(''Content-Type'', ''text/html; charset=utf-8'')])"
proof -
  have ct: "has_header ''Content-Type'' hs = has_header ''content-type'' hs"
    by (simp add: has_header_def lower_header_names)
  show ?thesis
    using headers_set_absent [of "''Content-Type''" hs "''text/html; charset=utf-8''"]
    by (simp add: Response_def Let_def ct)
qed

lemma str_of_nat_3: "str_of_nat 3 = ''3''" "str_of_nat (Suc (Suc (Suc 0))) = ''3''"
proof -
  show "str_of_nat 3 = ''3''"
    by (subst str_of_nat.simps) (simp add: digit_char_def)
  then show "str_of_nat (Suc (Suc (Suc 0))) = ''3''"
    by (simp add: numeral_3_eq_3)
qed

section \<open>The claims\<close>

text \<open>
  C1.  For a store whose bucket name is one path segment (it has no \<open>'/'\<close>)
  and every package, version and filename that are not empty and have no \<open>'/'\<close>,
  \<open>split_path\<close> of the path that \<open>get_package_path\<close> builds returns exactly
  the dictionary of the three components.
\<close>

theorem split_path_roundtrip:
  assumes "CHR ''/'' \<notin> set (bucket self)"
    and "package \<noteq> []" "CHR ''/'' \<notin> set package"
    and "version \<noteq> []" "CHR ''/'' \<notin> set version"
    and "fname \<noteq> []" "CHR ''/'' \<notin> set fname"
  shows "split_path self (get_package_path self package (Some version) (Some fname)) =
           Inr [(''package'', package), (''version'', version), (''filename'', fname)]"
proof -
  have enc: "get_package_path self package (Some version) (Some fname) =
               ''/'' @ bucket self @ ''/packages/'' @ package @ ''/'' @ version @ ''/'' @ fname"
    using assms by (simp add: get_package_path_full)
  have segs: "str_split CHR ''/'' (get_package_path self package (Some version) (Some fname)) =
                [[], bucket self, ''packages'', package, version, fname]"
    by (simp only: enc str_split_encoded [OF assms(1,3,5,7)])
  have "stripped_segments [[], bucket self, ''packages'', package, version, fname] = [package, version, fname]"
    using assms(6) by (simp add: stripped_segments_def)
  then show ?thesis
    by (simp add: split_path_def segs dict_of_triple)
qed

theorem split_path_roundtrip_witness:
  "split_path \<lparr>bucket = ''my-bucket'', acl = ''project-private''\<rparr>
     (get_package_path \<lparr>bucket = ''my-bucket'', acl = ''project-private''\<rparr> ''foo'' (Some ''1.0'') (Some ''foo-1.0.tar.gz''))
   = Inr [(''package'', ''foo''), (''version'', ''1.0''), (''filename'', ''foo-1.0.tar.gz'')]
   \<and> get_package_path \<lparr>bucket = ''my-bucket'', acl = ''project-private''\<rparr> ''foo'' (Some ''1.0'') (Some ''foo-1.0.tar.gz'')
       = ''/my-bucket/packages/foo/1.0/foo-1.0.tar.gz''"
proof -
  have "split_path \<lparr>bucket = ''my-bucket'', acl = ''project-private''\<rparr>
     (get_package_path \<lparr>bucket = ''my-bucket'', acl = ''project-private''\<rparr> ''foo'' (Some ''1.0'') (Some ''foo-1.0.tar.gz''))
   = Inr [(''package'', ''foo''), (''version'', ''1.0''), (''filename'', ''foo-1.0.tar.gz'')]"
    by (rule split_path_roundtrip) simp_all
  moreover have "get_package_path \<lparr>bucket = ''my-bucket'', acl = ''project-private''\<rparr> ''foo'' (Some ''1.0'') (Some ''foo-1.0.tar.gz'')
       = ''/my-bucket/packages/foo/1.0/foo-1.0.tar.gz''"
    by (simp add: get_package_path_def get_packages_path_def os_path_join_def startswith_sep_def endswith_sep_def)
  ultimately show ?thesis by simp
qed

text \<open>
  C2.  As amended.  \<open>split_path\<close> checks the identity segment only: a path
  without \<open>'/'\<close> raises \<open>IndexError\<close>, a path whose second segment is not the
  bucket raises \<open>AssertionError\<close>, and every other path is decoded, whatever its
  number of segments: the keys are paired with the first three of the remaining
  segments at most, so no segment gives the empty dictionary and more than three are
  cut to three.
\<close>

theorem split_path_outcomes:
  "(length (str_split CHR ''/'' path) < 2 \<longrightarrow> split_path self path = Inl IndexError)
   \<and> (2 \<le> length (str_split CHR ''/'' path) \<and> str_split CHR ''/'' path ! 1 \<noteq> bucket self
        \<longrightarrow> split_path self path = Inl AssertionError)
   \<and> (2 \<le> length (str_split CHR ''/'' path) \<and> str_split CHR ''/'' path ! 1 = bucket self
        \<longrightarrow> split_path self path =
            Inr (zip components (take 3 (stripped_segments (str_split CHR ''/'' path)))))"
  by (auto simp: split_path_def Let_def dict_of_zip_components)

theorem split_path_outcomes_witness:
  "split_path \<lparr>bucket = ''b'', acl = ''project-private''\<rparr> ''packages'' = Inl IndexError
   \<and> split_path \<lparr>bucket = ''b'', acl = ''project-private''\<rparr> ''/other/packages/foo'' = Inl AssertionError
   \<and> split_path \<lparr>bucket = ''b'', acl = ''project-private''\<rparr> ''/b/packages/foo/1.0/'' =
       Inr [(''package'', ''foo''), (''version'', ''1.0'')]"
  using split_path_outcomes [of "''packages''" "\<lparr>bucket = ''b'', acl = ''project-private''\<rparr>"]
    split_path_outcomes [of "''/other/packages/foo''" "\<lparr>bucket = ''b'', acl = ''project-private''\<rparr>"]
    split_path_outcomes [of "''/b/packages/foo/1.0/''" "\<lparr>bucket = ''b'', acl = ''project-private''\<rparr>"]
  by (simp add: stripped_segments_def components_def)

text \<open>
  The claim as stated fails: four segments and no segment are both decoded without
  an error, and a wrong identity segment raises \<open>AssertionError\<close>.
\<close>

theorem split_path_no_count_check_counterexample:
  "length (stripped_segments (str_split CHR ''/'' ''/b/packages/foo/1.0/foo.tar.gz/extra'')) = 4
   \<and> split_path \<lparr>bucket = ''b'', acl = ''project-private''\<rparr> ''/b/packages/foo/1.0/foo.tar.gz/extra'' =
       Inr [(''package'', ''foo''), (''version'', ''1.0''), (''filename'', ''foo.tar.gz'')]
   \<and> length (stripped_segments (str_split CHR ''/'' ''/b/packages'')) = 0
   \<and> split_path \<lparr>bucket = ''b'', acl = ''project-private''\<rparr> ''/b/packages'' = Inr []
   \<and> split_path \<lparr>bucket = ''b'', acl = ''project-private''\<rparr> ''/other/packages/foo'' = Inl AssertionError"
  by (simp add: split_path_def stripped_segments_def dict_of_def components_def)

text \<open>
  C3.  As amended.  \<open>get_packages_path\<close> is \<open>/{bucket}/packages\<close>, and
  \<open>get_package_path\<close> returns the path of the specification,
  \<open>/{bucket}/packages/{package}[/{version}[/{filename}]]\<close>, provided that no
  appended component begins with \<open>'/'\<close> and that a component followed by another
  one is not empty and does not end with \<open>'/'\<close>.
\<close>

theorem get_package_path_encoding:
  assumes "\<not> startswith_sep package"
    and "truthy version \<Longrightarrow>
           package \<noteq> [] \<and> \<not> endswith_sep package \<and> \<not> startswith_sep (the version)"
    and "truthy version \<Longrightarrow> truthy fname \<Longrightarrow>
           \<not> endswith_sep (the version) \<and> \<not> startswith_sep (the fname)"
  shows "get_packages_path self = ''/'' @ bucket self @ ''/packages''
         \<and> get_package_path self package version fname =
             spec_package_path (bucket self) package version fname"
proof -
  let ?root = "get_packages_path self"
  have 1: "os_path_join ?root package = ?root @ ''/'' @ package"
    using assms(1) packages_path_no_trailing_sep [of self] by (simp add: os_path_join_relative)
  have root: "?root = ''/'' @ bucket self @ ''/packages''"
    by (simp add: get_packages_path_def)
  show ?thesis
  proof (cases "truthy version")
    case False
    then have "get_package_path self package version fname = ?root @ ''/'' @ package"
      by (simp add: get_package_path_def Let_def 1)
    with False show ?thesis
      by (simp add: spec_package_path_def root)
  next
    case True
    then obtain v where v: "version = Some v" "v \<noteq> []"
      by (cases version) auto
    from assms(2) True v have p: "package \<noteq> []" "\<not> endswith_sep package" "\<not> startswith_sep v"
      by simp_all
    have 2: "os_path_join (?root @ ''/'' @ package) v = (?root @ ''/'' @ package) @ ''/'' @ v"
      using p by (intro os_path_join_relative) (simp_all add: endswith_sep_def)
    show ?thesis
    proof (cases "truthy fname")
      case False
      with v have "get_package_path self package version fname =
                     os_path_join (os_path_join ?root package) v"
        by (simp add: get_package_path_def Let_def)
      also have "\<dots> = (?root @ ''/'' @ package) @ ''/'' @ v"
        by (simp only: 1 2)
      also have "\<dots> = spec_package_path (bucket self) package version fname"
        using v False by (simp add: spec_package_path_def root)
      finally show ?thesis
        by (simp add: root)
    next
      case tf: True
      then obtain f where f: "fname = Some f" "f \<noteq> []"
        by (cases fname) auto
      from assms(3) True tf v f have q: "\<not> endswith_sep v" "\<not> startswith_sep f"
        by simp_all
      have 3: "os_path_join ((?root @ ''/'' @ package) @ ''/'' @ v) f =
                 ((?root @ ''/'' @ package) @ ''/'' @ v) @ ''/'' @ f"
        using q v(2) by (intro os_path_join_relative) (simp_all add: endswith_sep_def)
      have "get_package_path self package version fname =
              os_path_join (os_path_join (os_path_join ?root package) v) f"
        using v f by (simp add: get_package_path_def Let_def)
      also have "\<dots> = ((?root @ ''/'' @ package) @ ''/'' @ v) @ ''/'' @ f"
        by (simp only: 1 2 3)
      also have "\<dots> = spec_package_path (bucket self) package version fname"
        using v f by (simp add: spec_package_path_def root)
      finally show ?thesis
        by (simp add: root)
    qed
  qed
qed

theorem get_package_path_encoding_witness:
  "get_package_path \<lparr>bucket = ''b'', acl = ''project-private''\<rparr> ''foo'' (Some ''1.0'') (Some ''foo-1.0.tar.gz'')
     = ''/b/packages/foo/1.0/foo-1.0.tar.gz''
   \<and> get_package_path \<lparr>bucket = ''b'', acl = ''project-private''\<rparr> ''foo'' (Some ''1.0'') None
     = ''/b/packages/foo/1.0''
   \<and> get_package_path \<lparr>bucket = ''b'', acl = ''project-private''\<rparr> ''foo'' None None
     = ''/b/packages/foo''"
  using get_package_path_encoding [of "''foo''" "Some ''1.0''" "Some ''foo-1.0.tar.gz''" "\<lparr>bucket = ''b'', acl = ''project-private''\<rparr>"]
    get_package_path_encoding [of "''foo''" "Some ''1.0''" None "\<lparr>bucket = ''b'', acl = ''project-private''\<rparr>"]
    get_package_path_encoding [of "''foo''" None None "\<lparr>bucket = ''b'', acl = ''project-private''\<rparr>"]
  by (simp add: spec_package_path_def startswith_sep_def endswith_sep_def)

text \<open>
  The claim as stated fails for a component that begins with \<open>'/'\<close>:
  \<open>os.path.join\<close> then drops everything before it.
\<close>

theorem get_package_path_absolute_component_counterexample:
  "get_package_path \<lparr>bucket = ''b'', acl = ''project-private''\<rparr> ''/etc'' None None = ''/etc''
   \<and> spec_package_path ''b'' ''/etc'' None None = ''/b/packages//etc''
   \<and> get_package_path \<lparr>bucket = ''b'', acl = ''project-private''\<rparr> ''foo'' (Some ''/1.0'') (Some ''foo.tar.gz'')
       = ''/1.0/foo.tar.gz''
   \<and> spec_package_path ''b'' ''foo'' (Some ''/1.0'') (Some ''foo.tar.gz'') = ''/b/packages/foo//1.0/foo.tar.gz''"
  by (simp add: get_package_path_def get_packages_path_def os_path_join_def startswith_sep_def
      endswith_sep_def spec_package_path_def)

text \<open>
  C4.  As amended.  The headers that \<open>proxy_to_pypi_org\<close> gives to
  \<open>session.get\<close> are the inbound headers without those whose lower-cased name is
  in the exclusion list: a header named \<open>Authorization\<close>, in any capitalisation,
  is never among them, and a header outside the list keeps its value.  The session
  prepares the request with these headers merged over its own: the names of the
  merged headers are those of the filtered inbound headers and of the session's
  headers, a header given to the call keeps its value, and with the default headers
  of \<open>requests\<close> no merged header has an excluded name.
\<close>

theorem proxy_headers_exclusion:
  "proxy_to_pypi_org sess req package =
     (let resp = session_send sess (''https://pypi.org/simple/'' @ package)
                   (ci_items (merge_setting (cleanup_headers req proxy_skip_list) (session_headers sess)))
                   True
      in Response (read_binary_data resp) (status_code resp) (headers resp))
   \<and> map_of (cleanup_headers req skip_list) k =
       (if lower k \<in> set skip_list then None else map_of (dict_of (req_headers req)) k)
   \<and> (distinct (map fst (req_headers req)) \<longrightarrow>
        cleanup_headers req skip_list =
          filter (\<lambda>(k, v). lower k \<notin> set skip_list) (req_headers req))
   \<and> (lower k \<in> {''authorization'', ''x-appengine-auth-domain'', ''x-appengine-user-is-admin'', ''host''}
        \<longrightarrow> map_of (cleanup_headers req proxy_skip_list) k = None)
   \<and> (lower k \<notin> {''authorization'', ''x-appengine-auth-domain'', ''x-appengine-user-is-admin'', ''host''}
        \<longrightarrow> map_of (cleanup_headers req proxy_skip_list) k = map_of (dict_of (req_headers req)) k)
   \<and> (\<lambda>(k, v). lower k) ` set (ci_items (merge_setting (cleanup_headers req proxy_skip_list) (session_headers sess))) =
       (\<lambda>(k, v). lower k) ` set (cleanup_headers req proxy_skip_list)
         \<union> (\<lambda>(k, v). lower k) ` set (session_headers sess)
   \<and> (distinct (map (\<lambda>(k, v). lower k) (cleanup_headers req proxy_skip_list)) \<longrightarrow>
        set (cleanup_headers req proxy_skip_list)
          \<subseteq> set (ci_items (merge_setting (cleanup_headers req proxy_skip_list) (session_headers sess))))
   \<and> (\<lambda>(k, v). lower k) `
         set (ci_items (merge_setting (cleanup_headers req proxy_skip_list)
                         (default_headers user_agent accept_encoding)))
       \<inter> {''authorization'', ''x-appengine-auth-domain'', ''x-appengine-user-is-admin'', ''host''} = {}"
proof -
  have 0: "proxy_to_pypi_org sess req package =
     (let resp = session_send sess (''https://pypi.org/simple/'' @ package)
                   (ci_items (merge_setting (cleanup_headers req proxy_skip_list) (session_headers sess)))
                   True
      in Response (read_binary_data resp) (status_code resp) (headers resp))"
    by (simp add: proxy_to_pypi_org_def session_get_def Let_def)
  have 2: "distinct (map fst (req_headers req)) \<longrightarrow>
        cleanup_headers req skip_list =
          filter (\<lambda>(k, v). lower k \<notin> set skip_list) (req_headers req)"
    using cleanup_loop_distinct [of "[]" "req_headers req" skip_list]
    by (simp add: cleanup_headers_def)
  have 4: "set proxy_skip_list =
             {''authorization'', ''x-appengine-auth-domain'', ''x-appengine-user-is-admin'', ''host''}"
    by (simp add: proxy_skip_list_def)
  have 5: "lower k \<in> {''authorization'', ''x-appengine-auth-domain'', ''x-appengine-user-is-admin'', ''host''}
        \<longrightarrow> map_of (cleanup_headers req proxy_skip_list) k = None"
    and 6: "lower k \<notin> {''authorization'', ''x-appengine-auth-domain'', ''x-appengine-user-is-admin'', ''host''}
        \<longrightarrow> map_of (cleanup_headers req proxy_skip_list) k = map_of (dict_of (req_headers req)) k"
    unfolding 4 [symmetric] by (simp_all add: cleanup_headers_map_of)
  have 7: "distinct (map (\<lambda>(k, v). lower k) (cleanup_headers req proxy_skip_list)) \<longrightarrow>
        set (cleanup_headers req proxy_skip_list)
          \<subseteq> set (ci_items (merge_setting (cleanup_headers req proxy_skip_list) (session_headers sess)))"
    using merge_setting_keeps by blast
  have "{''user-agent'', ''accept-encoding'', ''accept'', ''connection''}
          \<inter> {''authorization'', ''x-appengine-auth-domain'', ''x-appengine-user-is-admin'', ''host''} = {}"
    by simp
  with cleanup_headers_names [of req proxy_skip_list]
  have 8: "(\<lambda>(k, v). lower k) `
         set (ci_items (merge_setting (cleanup_headers req proxy_skip_list)
                         (default_headers user_agent accept_encoding)))
       \<inter> {''authorization'', ''x-appengine-auth-domain'', ''x-appengine-user-is-admin'', ''host''} = {}"
    unfolding merge_setting_names default_headers_names 4 by blast
  show ?thesis
    using 0 cleanup_headers_map_of [of req skip_list k] 2 5 6 merge_setting_names 7 8
    by (intro conjI)
qed

theorem proxy_headers_exclusion_witness:
  "cleanup_headers
     \<lparr>req_headers = [(''Authorization'', ''Basic dXNlcjpwdw==''), (''Accept'', ''text/html''), (''Host'', ''pypi.example.org'')],
      req_values = [], req_files = []\<rparr> proxy_skip_list = [(''Accept'', ''text/html'')]
   \<and> map_of (cleanup_headers
     \<lparr>req_headers = [(''Authorization'', ''Basic dXNlcjpwdw==''), (''Accept'', ''text/html''), (''Host'', ''pypi.example.org'')],
      req_values = [], req_files = []\<rparr> proxy_skip_list) ''Authorization'' = None
   \<and> (''Accept'', ''text/html'') \<in> set (ci_items (merge_setting (cleanup_headers
     \<lparr>req_headers = [(''Authorization'', ''Basic dXNlcjpwdw==''), (''Accept'', ''text/html''), (''Host'', ''pypi.example.org'')],
      req_values = [], req_files = []\<rparr> proxy_skip_list) (default_headers ''python-requests/2.32.3'' ''gzip, deflate'')))
   \<and> response_status (proxy_to_pypi_org
       (requests_session ''python-requests/2.32.3'' ''gzip, deflate'' counting_send)
       \<lparr>req_headers = [(''Authorization'', ''Basic dXNlcjpwdw==''), (''Accept'', ''text/html''), (''Host'', ''pypi.example.org'')],
        req_values = [], req_files = []\<rparr> ''foo'') = 4"
proof -
  let ?req = "\<lparr>req_headers = [(''Authorization'', ''Basic dXNlcjpwdw==''), (''Accept'', ''text/html''), (''Host'', ''pypi.example.org'')],
       req_values = [], req_files = []\<rparr>"
  let ?sess = "requests_session ''python-requests/2.32.3'' ''gzip, deflate'' counting_send"
  note inst = proxy_headers_exclusion [where req = ?req and sess = ?sess and package = "''foo''"
      and skip_list = proxy_skip_list and k = "''Authorization''"
      and user_agent = "''python-requests/2.32.3''" and accept_encoding = "''gzip, deflate''"]
  have sh: "session_headers ?sess = default_headers ''python-requests/2.32.3'' ''gzip, deflate''"
    by (simp add: requests_session_def)
  have "distinct (map fst (req_headers ?req))"
    by simp
  with inst have "cleanup_headers ?req proxy_skip_list =
          filter (\<lambda>(k, v). lower k \<notin> set proxy_skip_list) (req_headers ?req)"
    by blast
  then have a: "cleanup_headers ?req proxy_skip_list = [(''Accept'', ''text/html'')]"
    by (simp add: lower_inbound_names lower_header_names proxy_skip_list_def)
  have "lower ''Authorization'' \<in>
          {''authorization'', ''x-appengine-auth-domain'', ''x-appengine-user-is-admin'', ''host''}"
    by (simp add: lower_inbound_names)
  with inst have b: "map_of (cleanup_headers ?req proxy_skip_list) ''Authorization'' = None"
    by blast
  have "distinct (map (\<lambda>(k, v). lower k) (cleanup_headers ?req proxy_skip_list))"
    by (simp add: a)
  with inst have "set (cleanup_headers ?req proxy_skip_list)
          \<subseteq> set (ci_items (merge_setting (cleanup_headers ?req proxy_skip_list) (session_headers ?sess)))"
    by blast
  then have c: "(''Accept'', ''text/html'') \<in> set (ci_items (merge_setting (cleanup_headers ?req proxy_skip_list)
                    (default_headers ''python-requests/2.32.3'' ''gzip, deflate'')))"
    unfolding sh by (simp add: a)
  have m: "ci_items (merge_setting [(''Accept'', ''text/html'')]
                       (default_headers ''python-requests/2.32.3'' ''gzip, deflate'')) =
             [(''User-Agent'', ''python-requests/2.32.3''), (''Accept-Encoding'', ''gzip, deflate''),
              (''Accept'', ''text/html''), (''Connection'', ''keep-alive'')]"
    by (simp add: default_headers_eq merge_setting_def CaseInsensitiveDict_def ci_update_def
        ci_setitem_def ci_items_def lower_header_names)
  from inst have "proxy_to_pypi_org ?sess ?req ''foo'' =
     (let resp = session_send ?sess (''https://pypi.org/simple/'' @ ''foo'')
                   (ci_items (merge_setting (cleanup_headers ?req proxy_skip_list) (session_headers ?sess)))
                   True
      in Response (read_binary_data resp) (status_code resp) (headers resp))"
    by blast
  then have d: "response_status (proxy_to_pypi_org ?sess ?req ''foo'') = 4"
    unfolding sh a m by (simp add: requests_session_def counting_send_def Response_def Let_def)
  from a b c d show ?thesis by simp
qed

text \<open>
  The claim as stated fails: the session adds its default headers, so the request is
  prepared with headers that the inbound request did not have.
\<close>

theorem proxy_headers_session_defaults_counterexample:
  "filter (\<lambda>(k, v). lower k \<notin> set proxy_skip_list)
     [(''Authorization'', ''Basic dXNlcjpwdw==''), (''Accept'', ''text/html''), (''Host'', ''pypi.example.org'')]
     = [(''Accept'', ''text/html'')]
   \<and> session_get (requests_session ''python-requests/2.32.3'' ''gzip, deflate'' counting_send)
       ''https://pypi.org/simple/foo''
       (cleanup_headers
          \<lparr>req_headers = [(''Authorization'', ''Basic dXNlcjpwdw==''), (''Accept'', ''text/html''), (''Host'', ''pypi.example.org'')],
           req_values = [], req_files = []\<rparr> proxy_skip_list) True
     = counting_send ''https://pypi.org/simple/foo''
         [(''User-Agent'', ''python-requests/2.32.3''), (''Accept-Encoding'', ''gzip, deflate''),
          (''Accept'', ''text/html''), (''Connection'', ''keep-alive'')] True
   \<and> response_status (proxy_to_pypi_org
       (requests_session ''python-requests/2.32.3'' ''gzip, deflate'' counting_send)
       \<lparr>req_headers = [(''Authorization'', ''Basic dXNlcjpwdw==''), (''Accept'', ''text/html''), (''Host'', ''pypi.example.org'')],
        req_values = [], req_files = []\<rparr> ''foo'') = 4"
proof -
  let ?req = "\<lparr>req_headers = [(''Authorization'', ''Basic dXNlcjpwdw==''), (''Accept'', ''text/html''), (''Host'', ''pypi.example.org'')],
       req_values = [], req_files = []\<rparr>"
  have a: "cleanup_headers ?req proxy_skip_list = [(''Accept'', ''text/html'')]"
    by (simp add: cleanup_headers_def proxy_skip_list_def lower_inbound_names lower_header_names)
  have f: "filter (\<lambda>(k, v). lower k \<notin> set proxy_skip_list)
     [(''Authorization'', ''Basic dXNlcjpwdw==''), (''Accept'', ''text/html''), (''Host'', ''pypi.example.org'')]
     = [(''Accept'', ''text/html'')]"
    by (simp add: proxy_skip_list_def lower_inbound_names lower_header_names)
  have m: "ci_items (merge_setting [(''Accept'', ''text/html'')]
                       (default_headers ''python-requests/2.32.3'' ''gzip, deflate'')) =
             [(''User-Agent'', ''python-requests/2.32.3''), (''Accept-Encoding'', ''gzip, deflate''),
              (''Accept'', ''text/html''), (''Connection'', ''keep-alive'')]"
    by (simp add: default_headers_eq merge_setting_def CaseInsensitiveDict_def ci_update_def
        ci_setitem_def ci_items_def lower_header_names)
  have g: "session_get (requests_session ''python-requests/2.32.3'' ''gzip, deflate'' counting_send)
       ''https://pypi.org/simple/foo'' (cleanup_headers ?req proxy_skip_list) True
     = counting_send ''https://pypi.org/simple/foo''
         [(''User-Agent'', ''python-requests/2.32.3''), (''Accept-Encoding'', ''gzip, deflate''),
          (''Accept'', ''text/html''), (''Connection'', ''keep-alive'')] True"
    unfolding a by (simp only: session_get_def requests_session_def session.simps m)
  have d: "response_status (proxy_to_pypi_org
       (requests_session ''python-requests/2.32.3'' ''gzip, deflate'' counting_send) ?req ''foo'') = 4"
    unfolding proxy_to_pypi_org_def Let_def a
    by (simp add: session_get_def requests_session_def m counting_send_def Response_def Let_def)
  from f g d show ?thesis by (intro conjI)
qed

text \<open>
  C5.  As amended.  \<open>read_binary_data\<close>, which reads chunks of 16 KiB until
  one is empty and concatenates them, returns the whole upstream stream (the loop is a
  total function, so it does return).  The proxied response has the upstream status
  code and that body.  Its headers are the upstream headers with the two changes that
  the \<open>Response\<close> constructor makes: \<open>Content-Type\<close> is added when upstream
  has none, and \<open>Content-Length\<close> is set to the length of the body; every other
  header is as upstream sent it.
\<close>

theorem proxy_response_contents:
  "read_binary_data resp = raw resp
   \<and> (let upstream = session_get sess (''https://pypi.org/simple/'' @ package)
                        (cleanup_headers req proxy_skip_list) True;
           proxied = proxy_to_pypi_org sess req package
       in response_status proxied = status_code upstream
          \<and> response_body proxied = raw upstream
          \<and> response_headers proxied =
              headers_set ''Content-Length'' (str_of_nat (length (raw upstream)))
                (if has_header ''content-type'' (headers upstream) then headers upstream
                 else headers upstream @ [(''Content-Type'', ''text/html; charset=utf-8'')])
          \<and> filter (\<lambda>(k, v). lower k \<notin> {''content-type'', ''content-length''}) (response_headers proxied)
              = filter (\<lambda>(k, v). lower k \<notin> {''content-type'', ''content-length''}) (headers upstream))"
proof -
  let ?up = "session_get sess (''https://pypi.org/simple/'' @ package)
               (cleanup_headers req proxy_skip_list) True"
  let ?N = "{''content-type'', ''content-length''}"
  have body: "read_binary_data r = raw r" for r
    by (simp add: read_binary_data_def read_loop_eq)
  have p: "proxy_to_pypi_org sess req package = Response (raw ?up) (status_code ?up) (headers ?up)"
    by (simp add: proxy_to_pypi_org_def Let_def body)
  have st: "response_status (Response (raw ?up) (status_code ?up) (headers ?up)) = status_code ?up"
    and bd: "response_body (Response (raw ?up) (status_code ?up) (headers ?up)) = raw ?up"
    by (simp_all add: Response_def Let_def)
  have cl: "lower ''Content-Length'' \<in> ?N"
    by (simp add: lower_header_names)
  have "filter (\<lambda>(k, v). lower k \<notin> ?N) (response_headers (Response (raw ?up) (status_code ?up) (headers ?up)))
          = filter (\<lambda>(k, v). lower k \<notin> ?N)
              (if has_header ''content-type'' (headers ?up) then headers ?up
               else headers ?up @ [(''Content-Type'', ''text/html; charset=utf-8'')])"
    unfolding response_headers_Response using cl by (rule headers_set_others)
  also have "\<dots> = filter (\<lambda>(k, v). lower k \<notin> ?N) (headers ?up)"
    by (simp add: lower_header_names)
  finally have others: "filter (\<lambda>(k, v). lower k \<notin> ?N) (response_headers (Response (raw ?up) (status_code ?up) (headers ?up)))
          = filter (\<lambda>(k, v). lower k \<notin> ?N) (headers ?up)" .
  show ?thesis
    unfolding Let_def p using body st bd response_headers_Response others by (intro conjI)
qed

theorem proxy_response_contents_witness:
  "proxy_to_pypi_org
     (requests_session ''python-requests/2.32.3'' ''gzip, deflate''
        (answering \<lparr>status_code = 404,
                    headers = [(''Content-Type'', ''text/plain''), (''Content-Length'', ''3''), (''X-Served-By'', ''cache'')],
                    raw = [52, 48, 52]\<rparr>))
     \<lparr>req_headers = [(''Accept'', ''text/html'')], req_values = [], req_files = []\<rparr> ''foo''
   = \<lparr>response_body = [52, 48, 52], response_status = 404,
      response_headers = [(''Content-Type'', ''text/plain''), (''Content-Length'', ''3''), (''X-Served-By'', ''cache'')]\<rparr>"
proof -
  let ?r = "\<lparr>status_code = 404,
             headers = [(''Content-Type'', ''text/plain''), (''Content-Length'', ''3''), (''X-Served-By'', ''cache'')],
             raw = [52, 48, 52 :: byte]\<rparr>"
  let ?sess = "requests_session ''python-requests/2.32.3'' ''gzip, deflate'' (answering ?r)"
  let ?req = "\<lparr>req_headers = [(''Accept'', ''text/html'')], req_values = [], req_files = []\<rparr>"
  have up: "session_get ?sess (''https://pypi.org/simple/'' @ ''foo'') (cleanup_headers ?req proxy_skip_list) True = ?r"
    by (simp add: session_get_def requests_session_def answering_def)
  have hs: "headers_set ''Content-Length'' (str_of_nat (length (raw ?r)))
              (if has_header ''content-type'' (headers ?r) then headers ?r
               else headers ?r @ [(''Content-Type'', ''text/html; charset=utf-8'')]) = headers ?r"
    by (simp add: str_of_nat_3 has_header_def lower_header_names)
       (simp add: lower_def lower_char_def ascii_uppercase_def ascii_lowercase_def
          latin1_uppercase_def latin1_lowercase_def)
  from proxy_response_contents [of ?r ?sess "''foo''" ?req]
  have "response_status (proxy_to_pypi_org ?sess ?req ''foo'') = 404"
    and "response_body (proxy_to_pypi_org ?sess ?req ''foo'') = [52, 48, 52]"
    and "response_headers (proxy_to_pypi_org ?sess ?req ''foo'') = headers ?r"
    unfolding Let_def up hs by simp_all
  then show ?thesis
    by (cases "proxy_to_pypi_org ?sess ?req ''foo''") simp
qed

text \<open>
  The claim as stated fails: a chunked upstream response gets a \<open>Content-Length\<close>,
  and one without \<open>Content-Type\<close> gets the default of Flask.
\<close>

theorem proxy_response_headers_counterexample:
  "response_headers
     (proxy_to_pypi_org
        (requests_session ''python-requests/2.32.3'' ''gzip, deflate''
           (answering \<lparr>status_code = 200,
                       headers = [(''Content-Type'', ''text/html''), (''Transfer-Encoding'', ''chunked'')],
                       raw = [60, 33, 62]\<rparr>))
        \<lparr>req_headers = [(''Accept'', ''text/html'')], req_values = [], req_files = []\<rparr> ''foo'')
   = [(''Content-Type'', ''text/html''), (''Transfer-Encoding'', ''chunked''), (''Content-Length'', ''3'')]
   \<and> response_headers
     (proxy_to_pypi_org
        (requests_session ''python-requests/2.32.3'' ''gzip, deflate''
           (answering \<lparr>status_code = 200, headers = [(''Content-Length'', ''3'')], raw = [60, 33, 62]\<rparr>))
        \<lparr>req_headers = [(''Accept'', ''text/html'')], req_values = [], req_files = []\<rparr> ''foo'')
   = [(''Content-Length'', ''3''), (''Content-Type'', ''text/html; charset=utf-8'')]"
  by (simp add: proxy_to_pypi_org_def session_get_def requests_session_def answering_def
      read_binary_data_def read_loop_eq Response_def has_header_def str_of_nat_3
      lower_header_names)
     (simp add: lower_def lower_char_def ascii_uppercase_def ascii_lowercase_def
        latin1_uppercase_def latin1_lowercase_def)

text \<open>
  C6.  On \<open>/packages/<package>\<close> the view returns the locally rendered index exactly
  when the index reports that it exists, and on \<open>/pypi/<package>\<close> exactly when it
  exists and is not empty; in every other case the view returns the proxied upstream
  response, unchanged.  The result is one or the other, never a mix.
\<close>

theorem local_presence_wins:
  "packages_get_package PackageIndex session storage req package =
     (if index_exists (PackageIndex storage package)
      then Page (index_to_html (PackageIndex storage package) False)
      else Proxied (proxy_to_pypi_org session req package))
   \<and> pypi_package_get PackageIndex session storage req package =
     (if index_exists (PackageIndex storage package) \<and> \<not> index_empty (PackageIndex storage package)
      then Page (index_to_html (PackageIndex storage package) True)
      else Proxied (proxy_to_pypi_org session req package))
   \<and> ((\<exists>html. packages_get_package PackageIndex session storage req package = Page html)
        = index_exists (PackageIndex storage package))
   \<and> ((\<exists>html. pypi_package_get PackageIndex session storage req package = Page html)
        = (index_exists (PackageIndex storage package) \<and> \<not> index_empty (PackageIndex storage package)))"
  by (auto simp: packages_get_package_def pypi_package_get_def Let_def)

text \<open>
  C7.  As amended.  For a path that contains a \<open>'/'\<close> and does not end with
  one, \<open>split_path\<close> gives the same result with and without a trailing
  \<open>'/'\<close>.  For a path that names something below the bucket (its bucket-relative
  part is not empty), \<open>ls\<close> queries the backend with a prefix that ends with
  \<open>'/'\<close>: the bucket-relative part, with \<open>'/'\<close> appended unless the path
  already ends with one.
\<close>

theorem trailing_slash_normalization:
  "(CHR ''/'' \<in> set path \<and> last path \<noteq> CHR ''/''
      \<longrightarrow> split_path self (path @ ''/'') = split_path self path)
   \<and> (snd (to_bucket_and_path path) \<noteq> [] \<longrightarrow>
        (let pre = (if last path = CHR ''/'' then snd (to_bucket_and_path path)
                    else snd (to_bucket_and_path path) @ ''/'')
         in endswith_sep pre
            \<and> ls_query self path = Inr (bucket self, pre, ''/'')
            \<and> ls client self path dir_only =
                Inr (map (legacy_path self)
                      (if dir_only then snd (client (bucket self) pre ''/'')
                       else fst (client (bucket self) pre ''/'')))))"
proof (intro conjI impI)
  assume "CHR ''/'' \<in> set path \<and> last path \<noteq> CHR ''/''"
  then show "split_path self (path @ ''/'') = split_path self path"
    by (simp add: split_path_trailing_sep)
next
  assume bp: "snd (to_bucket_and_path path) \<noteq> []"
  let ?pre = "if last path = CHR ''/'' then snd (to_bucket_and_path path)
              else snd (to_bucket_and_path path) @ ''/''"
  have ne: "path \<noteq> []"
    using bp by (auto simp: to_bucket_and_path_def lstrip_sep_def)
  note pad = bucket_path_padded [OF bp]
  have q: "ls_query self path = Inr (bucket self, ?pre, ''/'')"
    using ne pad by (simp add: ls_query_def Let_def)
  have e: "endswith_sep ?pre"
    using pad by simp
  have l: "ls client self path dir_only =
             Inr (map (legacy_path self)
                   (if dir_only then snd (client (bucket self) ?pre ''/'')
                    else fst (client (bucket self) ?pre ''/'')))"
    by (simp add: ls_def q Let_def)
  from q e l show "let pre = ?pre
         in endswith_sep pre
            \<and> ls_query self path = Inr (bucket self, pre, ''/'')
            \<and> ls client self path dir_only =
                Inr (map (legacy_path self)
                      (if dir_only then snd (client (bucket self) pre ''/'')
                       else fst (client (bucket self) pre ''/'')))"
    unfolding Let_def by (intro conjI)
qed

theorem trailing_slash_normalization_witness:
  "split_path \<lparr>bucket = ''b'', acl = ''project-private''\<rparr> (''/b/packages/foo'' @ ''/'')
     = split_path \<lparr>bucket = ''b'', acl = ''project-private''\<rparr> ''/b/packages/foo''
   \<and> ls_query \<lparr>bucket = ''b'', acl = ''project-private''\<rparr> ''/b/packages/foo'' = Inr (''b'', ''packages/foo/'', ''/'')
   \<and> ls_query \<lparr>bucket = ''b'', acl = ''project-private''\<rparr> ''/b/packages/foo/'' = Inr (''b'', ''packages/foo/'', ''/'')"
proof -
  let ?st = "\<lparr>bucket = ''b'', acl = ''project-private''\<rparr>"
  have bp1: "snd (to_bucket_and_path ''/b/packages/foo'') = ''packages/foo''"
    and bp2: "snd (to_bucket_and_path ''/b/packages/foo/'') = ''packages/foo/''"
    by (simp_all add: to_bucket_and_path_def lstrip_sep_def)
  have "CHR ''/'' \<in> set ''/b/packages/foo'' \<and> last ''/b/packages/foo'' \<noteq> CHR ''/''"
    by simp
  with trailing_slash_normalization [of "''/b/packages/foo''" ?st]
  have a: "split_path ?st (''/b/packages/foo'' @ ''/'') = split_path ?st ''/b/packages/foo''"
    by blast
  have "snd (to_bucket_and_path ''/b/packages/foo'') \<noteq> []"
    by (simp add: bp1)
  with trailing_slash_normalization [of "''/b/packages/foo''" ?st]
  have b: "ls_query ?st ''/b/packages/foo'' = Inr (''b'', ''packages/foo/'', ''/'')"
    by (simp add: bp1 Let_def)
  have "snd (to_bucket_and_path ''/b/packages/foo/'') \<noteq> []"
    by (simp add: bp2)
  with trailing_slash_normalization [of "''/b/packages/foo/''" ?st]
  have c: "ls_query ?st ''/b/packages/foo/'' = Inr (''b'', ''packages/foo/'', ''/'')"
    by (simp add: bp2 Let_def)
  from a b c show ?thesis by simp
qed

text \<open>
  The claim as stated fails: only one trailing empty segment is dropped, so a second
  one is decoded as an empty version; and for the path of the bucket itself the prefix
  of the query is empty.
\<close>

theorem trailing_slash_normalization_counterexample:
  "split_path \<lparr>bucket = ''b'', acl = ''project-private''\<rparr> (''/b/packages/foo/'' @ ''/'')
     = Inr [(''package'', ''foo''), (''version'', [])]
   \<and> split_path \<lparr>bucket = ''b'', acl = ''project-private''\<rparr> ''/b/packages/foo/''
     = Inr [(''package'', ''foo'')]
   \<and> ls_query \<lparr>bucket = ''b'', acl = ''project-private''\<rparr> ''/b'' = Inr (''b'', [], ''/'')
   \<and> ls_query \<lparr>bucket = ''b'', acl = ''project-private''\<rparr> ''/b/'' = Inr (''b'', [], ''/'')"
  by (simp add: split_path_def stripped_segments_def dict_of_def components_def
      ls_query_def to_bucket_and_path_def lstrip_sep_def)

text \<open>
  C8.  An upload request whose \<open>name\<close> or \<open>version\<close> is missing (or empty), that
  carries no file, or whose \<open>:action\<close> is not \<open>file_upload\<close> leaves the store as it
  was, whatever the write operation would do, and the view returns the empty body.
\<close>

theorem root_post_noop:
  assumes "\<not> (truthy (map_of (req_values req) ''name'')
             \<and> truthy (map_of (req_values req) ''version'')
             \<and> req_files req \<noteq> []
             \<and> map_of (req_values req) '':action'' = Some ''file_upload'')"
  shows "root_post put_file store req = Inr (store, [])"
  using assms by (auto simp: root_post_def Let_def)

theorem root_post_noop_witness:
  "root_post (\<lambda>st n v f c. Inr (Suc st)) (0::nat)
     \<lparr>req_headers = [], req_values = [(''name'', ''foo''), ('':action'', ''file_upload'')],
      req_files = [(''content'', \<lparr>filename = ''foo-1.0.tar.gz'', stream = [1, 2]\<rparr>)]\<rparr>
   = Inr (0, [])"
  by (rule root_post_noop) simp

text \<open>
  C9.  When the listing of the path's prefix yields at least one blob,
  \<open>path_exists\<close> raises \<open>AttributeError\<close>; when it returns, the listing had no blob,
  and the value returned is the number of prefixes.
\<close>

theorem path_exists_raises_on_blobs:
  "(fst (client (bucket self) (snd (to_bucket_and_path path)) ''/'') \<noteq> []
      \<longrightarrow> path_exists client self path = Inl AttributeError)
   \<and> (path_exists client self path = Inr v
      \<longrightarrow> fst (client (bucket self) (snd (to_bucket_and_path path)) ''/'') = []
          \<and> v = PyInt (int (length (snd (client (bucket self) (snd (to_bucket_and_path path)) ''/'')))))"
proof (cases "fst (client (bucket self) (snd (to_bucket_and_path path)) ''/'') = []")
  case True
  then show ?thesis
    by (auto simp: path_exists_def Let_def)
next
  case False
  then have "path_exists client self path = Inl AttributeError"
    by (simp add: path_exists_def Let_def add_names_raises)
  with False show ?thesis by simp
qed

theorem path_exists_raises_on_blobs_witness:
  "path_exists (\<lambda>b p d. ([''packages/foo/foo-1.0.tar.gz''], []))
     \<lparr>bucket = ''b'', acl = ''project-private''\<rparr> ''/b/packages/foo/'' = Inl AttributeError
   \<and> path_exists (\<lambda>b p d. ([], [''packages/foo/'', ''packages/bar/'']))
     \<lparr>bucket = ''b'', acl = ''project-private''\<rparr> ''/b/packages/'' = Inr (PyInt 2)"
proof -
  have a: "path_exists (\<lambda>b p d. ([''packages/foo/foo-1.0.tar.gz''], []))
             \<lparr>bucket = ''b'', acl = ''project-private''\<rparr> ''/b/packages/foo/'' = Inl AttributeError"
    using path_exists_raises_on_blobs
      [of "\<lambda>b p d. ([''packages/foo/foo-1.0.tar.gz''], [])"
          "\<lparr>bucket = ''b'', acl = ''project-private''\<rparr>" "''/b/packages/foo/''"]
    by simp
  have b: "path_exists (\<lambda>b p d. ([], [''packages/foo/'', ''packages/bar/'']))
             \<lparr>bucket = ''b'', acl = ''project-private''\<rparr> ''/b/packages/'' = Inr (PyInt 2)"
    by (simp add: path_exists_def)
  from a b show ?thesis by simp
qed

text \<open>
  C10.  As amended.  When the version is omitted or empty, \<open>get_package_path\<close>
  ignores the filename: the result is that of the call with the package alone,
  \<open>os.path.join\<close> of the packages path and the package, which is
  \<open>/{bucket}/packages/{package}\<close> for every package that does not begin with
  \<open>'/'\<close>.
\<close>

theorem get_package_path_ignores_filename:
  assumes "\<not> truthy version"
  shows "get_package_path self package version fname = get_package_path self package None None
         \<and> get_package_path self package version fname = os_path_join (get_packages_path self) package
         \<and> (\<not> startswith_sep package \<longrightarrow>
              get_package_path self package version fname = ''/'' @ bucket self @ ''/packages/'' @ package)"
proof -
  have "get_package_path self package version fname = os_path_join (get_packages_path self) package"
    using assms by (simp add: get_package_path_def Let_def)
  moreover have "get_package_path self package None None = os_path_join (get_packages_path self) package"
    by (simp add: get_package_path_def Let_def)
  moreover have "\<not> startswith_sep package \<longrightarrow>
      os_path_join (get_packages_path self) package = ''/'' @ bucket self @ ''/packages/'' @ package"
    using packages_path_no_trailing_sep [of self]
    by (simp add: os_path_join_relative) (simp add: get_packages_path_def)
  ultimately show ?thesis by simp
qed

theorem get_package_path_ignores_filename_witness:
  "get_package_path \<lparr>bucket = ''b'', acl = ''project-private''\<rparr> ''foo'' None (Some ''foo-1.0.tar.gz'')
     = ''/b/packages/foo''
   \<and> get_package_path \<lparr>bucket = ''b'', acl = ''project-private''\<rparr> ''foo'' (Some []) (Some ''foo-1.0.tar.gz'')
     = ''/b/packages/foo''"
proof -
  let ?st = "\<lparr>bucket = ''b'', acl = ''project-private''\<rparr>"
  have rel: "\<not> startswith_sep ''foo''"
    by (simp add: startswith_sep_def)
  have "\<not> truthy None"
    by simp
  from get_package_path_ignores_filename [OF this, of ?st "''foo''" "Some ''foo-1.0.tar.gz''"] rel
  have a: "get_package_path ?st ''foo'' None (Some ''foo-1.0.tar.gz'') = ''/'' @ bucket ?st @ ''/packages/'' @ ''foo''"
    by blast
  have "\<not> truthy (Some [])"
    by simp
  from get_package_path_ignores_filename [OF this, of ?st "''foo''" "Some ''foo-1.0.tar.gz''"] rel
  have b: "get_package_path ?st ''foo'' (Some []) (Some ''foo-1.0.tar.gz'') = ''/'' @ bucket ?st @ ''/packages/'' @ ''foo''"
    by blast
  from a b show ?thesis by simp
qed

text \<open>
  The claim as stated fails for a package that begins with \<open>'/'\<close>: the result
  is the package itself.
\<close>

theorem get_package_path_ignores_filename_counterexample:
  "get_package_path \<lparr>bucket = ''b'', acl = ''project-private''\<rparr> ''/srv'' None (Some ''foo-1.0.tar.gz'') = ''/srv''
   \<and> get_package_path \<lparr>bucket = ''b'', acl = ''project-private''\<rparr> ''/srv'' (Some []) (Some ''foo-1.0.tar.gz'') = ''/srv''
   \<and> ''/srv'' \<noteq> ''/'' @ ''b'' @ ''/packages/'' @ ''/srv''"
  by (simp add: get_package_path_def get_packages_path_def os_path_join_def startswith_sep_def)

end
